theory Spec2Isabelle
  imports Main "HOL-Library.Multiset" "HOL-Library.Sublist"
begin

section \<open>FeatureLoader: data model\<close>

text \<open>
  A shallow embedding of \<^verbatim>\<open>modules/nuclide-commons-atom/FeatureLoader.js\<close>.

  JavaScript values that the code inspects dynamically (the entries of the
  \<^verbatim>\<open>use\<close> rule table, the entries of \<^verbatim>\<open>providedServices\<close>) are kept as a
  small datatype of JavaScript values, so that a rule such as the boolean
  \<^verbatim>\<open>true\<close> can be written down although the Flow type does not list it.
\<close>

datatype jsval = JUndefined | JNull | JBool bool | JNum int | JStr string | JObject

text \<open>\<^verbatim>\<open>x == null\<close> holds for \<^verbatim>\<open>null\<close> and \<^verbatim>\<open>undefined\<close> only.\<close>

fun is_nullish :: "jsval \<Rightarrow> bool" where
  "is_nullish JUndefined = True"
| "is_nullish JNull = True"
| "is_nullish _ = False"

text \<open>\<^verbatim>\<open>Boolean(x)\<close>: the truthiness of a value.\<close>

fun Boolean :: "jsval \<Rightarrow> bool" where
  "Boolean JUndefined = False"
| "Boolean JNull = False"
| "Boolean (JBool b) = b"
| "Boolean (JNum n) = (n \<noteq> 0)"
| "Boolean (JStr s) = (s \<noteq> [])"
| "Boolean JObject = True"

text \<open>
  \<^verbatim>\<open>type FeaturePkg\<close> and \<^verbatim>\<open>type Feature\<close>. Of the package metadata only
  \<^verbatim>\<open>providedServices\<close> is read by the functions modelled below (the name of
  a feature is always taken from its path). An optional object
  field is \<open>None\<close> when it is missing.
\<close>

record FeaturePkg =
  providedServices :: "(string \<rightharpoonup> jsval) option"

record Feature =
  path :: string
  pkg :: FeaturePkg

text \<open>
  Features are JavaScript objects: \<^verbatim>\<open>Set\<close> and \<^verbatim>\<open>Map\<close> compare them by
  reference, not by content. A feature is therefore a reference, and the
  store maps each reference to the object it denotes. The code never writes
  to a feature, so the store is passed around unchanged.
\<close>

type_synonym ref = nat
type_synonym heap = "ref \<Rightarrow> Feature"

text \<open>
  A JavaScript \<^verbatim>\<open>Set\<close> iterates in insertion order and holds no element
  twice: it is a list built only by \<open>Set_add\<close>. \<^verbatim>\<open>new Set(iterable)\<close> adds the
  elements one by one, so the first occurrence of an element fixes its place.
\<close>

type_synonym 'a JSSet = "'a list"

definition Set_has :: "'a JSSet \<Rightarrow> 'a \<Rightarrow> bool" where
  "Set_has s x = (x \<in> set s)"

definition Set_add :: "'a JSSet \<Rightarrow> 'a \<Rightarrow> 'a JSSet" where
  "Set_add s x = (if Set_has s x then s else s @ [x])"

definition new_Set :: "'a list \<Rightarrow> 'a JSSet" where
  "new_Set xs = foldl Set_add [] xs"

text \<open>\<^verbatim>\<open>new Map(entries)\<close>: a later entry overwrites an earlier one with the same key.\<close>

definition new_Map :: "('k \<times> 'v) list \<Rightarrow> ('k \<rightharpoonup> 'v)" where
  "new_Map entries = foldl (\<lambda>m (k, v). m(k \<mapsto> v)) Map.empty entries"

subsection \<open>Helpers of \<^verbatim>\<open>nuclide-commons/collection\<close>\<close>

text \<open>
  Modelled from the spec: \<^verbatim>\<open>MultiMap\<close> and \<^verbatim>\<open>setUnion\<close> are imported from
  \<^verbatim>\<open>nuclide-commons/collection\<close>, which is not among the sources. The spec
  describes the group index as a mapping from a group name to a set of
  features, whose lookup gives the empty set for an absent group, and the
  eligible features as the union of the sets of the selected groups.
\<close>

type_synonym ('k, 'v) MultiMap = "'k \<rightharpoonup> 'v JSSet"

definition MultiMap_get :: "('k, 'v) MultiMap \<Rightarrow> 'k \<Rightarrow> 'v JSSet" where
  "MultiMap_get m k = (case m k of None \<Rightarrow> [] | Some s \<Rightarrow> s)"

definition MultiMap_set :: "('k, 'v) MultiMap \<Rightarrow> 'k \<Rightarrow> 'v list \<Rightarrow> ('k, 'v) MultiMap" where
  "MultiMap_set m k vs = m(k \<mapsto> new_Set vs)"

definition setUnion :: "'a JSSet list \<Rightarrow> 'a JSSet" where
  "setUnion sets = foldl (\<lambda>acc s. foldl Set_add acc s) [] sets"

subsection \<open>Constants and small helpers\<close>

definition ALWAYS_ENABLED :: string where "ALWAYS_ENABLED = ''always''"
definition NEVER_ENABLED :: string where "NEVER_ENABLED = ''never''"
definition DEFAULT :: string where "DEFAULT = ''default''"
definition REQUIRED_FEATURE_GROUP :: string where "REQUIRED_FEATURE_GROUP = ''nuclide-required''"

text \<open>
  \<^verbatim>\<open>path.basename\<close> of Node, in its POSIX form and without the extension
  argument: trailing slashes are ignored and the part after the last
  remaining slash is returned.
\<close>

definition basename :: "string \<Rightarrow> string" where
  "basename p = rev (takeWhile (\<lambda>c. c \<noteq> CHR ''/'') (dropWhile (\<lambda>c. c = CHR ''/'') (rev p)))"

definition packageNameFromPath :: "string \<Rightarrow> string" where
  "packageNameFromPath pkgPath = basename pkgPath"

text \<open>\<^verbatim>\<open>String.prototype.startsWith\<close>.\<close>

definition startsWith :: "string \<Rightarrow> string \<Rightarrow> bool" where
  "startsWith s p = (take (length p) s = p)"

definition getFeatureDefaultValue :: "Feature \<Rightarrow> string" where
  "getFeatureDefaultValue feature =
     (let name = packageNameFromPath (path feature)
      in if startsWith name ''sample-'' then NEVER_ENABLED else DEFAULT)"

text \<open>
  \<^verbatim>\<open>Boolean(idx(pkg, _ => _.providedServices['atom.repository-provider']))\<close>:
  \<^verbatim>\<open>idx\<close> gives \<^verbatim>\<open>undefined\<close> when \<^verbatim>\<open>providedServices\<close> is missing.
\<close>

definition packageIsRepositoryProvider :: "FeaturePkg \<Rightarrow> bool" where
  "packageIsRepositoryProvider p =
     Boolean (case providedServices p of
                None \<Rightarrow> JUndefined
              | Some services \<Rightarrow>
                  (case services ''atom.repository-provider'' of
                     None \<Rightarrow> JUndefined
                   | Some v \<Rightarrow> v))"

text \<open>
  What a \<^verbatim>\<open>throw\<close> hands to a \<^verbatim>\<open>catch\<close>. The code reads \<^verbatim>\<open>err.message\<close> of
  it into a template string: of \<^verbatim>\<open>null\<close> and \<^verbatim>\<open>undefined\<close> that read throws a
  \<^verbatim>\<open>TypeError\<close>; of any other value it gives a text (the message of an
  \<^verbatim>\<open>Error\<close>, \<open>undefined\<close> for a value without one). Values whose message
  cannot be turned into text (a symbol, a getter that throws) are not
  modelled.
\<close>

datatype thrown = Nullish | Message string

datatype error = InvariantViolation | NullThrows | TypeError | HostError thrown

definition nullthrows :: "'a option \<Rightarrow> error + 'a" where
  "nullthrows x = (case x of None \<Rightarrow> Inl NullThrows | Some v \<Rightarrow> Inr v)"

section \<open>Activation order: \<^verbatim>\<open>reorderFeatures\<close>\<close>

text \<open>
  \<^verbatim>\<open>Array.prototype.sort(compareFn)\<close>. The comparison function may throw, so
  it returns a sum, and a throw leaves the sort. The engine is free in the
  algorithm it runs; the model is an insertion sort that puts an element
  before the first one it does not compare greater than. The comparison
  function of \<^verbatim>\<open>reorderFeatures\<close> is a total preorder in which only one and
  the same object compares equal to itself, so every sorting algorithm
  returns the list that this one returns.
\<close>

fun sort_insert :: "('a \<Rightarrow> 'a \<Rightarrow> error + int) \<Rightarrow> 'a \<Rightarrow> 'a list \<Rightarrow> error + 'a list" where
  "sort_insert compareFn x [] = Inr [x]"
| "sort_insert compareFn x (y # ys) =
     (case compareFn x y of
        Inl e \<Rightarrow> Inl e
      | Inr c \<Rightarrow>
          if c \<le> 0 then Inr (x # y # ys)
          else (case sort_insert compareFn x ys of
                  Inl e \<Rightarrow> Inl e
                | Inr zs \<Rightarrow> Inr (y # zs)))"

fun Array_sort :: "('a \<Rightarrow> 'a \<Rightarrow> error + int) \<Rightarrow> 'a list \<Rightarrow> error + 'a list" where
  "Array_sort compareFn [] = Inr []"
| "Array_sort compareFn (x # xs) =
     (case Array_sort compareFn xs of
        Inl e \<Rightarrow> Inl e
      | Inr ys \<Rightarrow> sort_insert compareFn x ys)"

text \<open>\<^verbatim>\<open>new Map(features.map((feature, i) => [feature, i]))\<close>\<close>

definition originalOrder :: "ref list \<Rightarrow> (ref \<rightharpoonup> nat)" where
  "originalOrder features = new_Map (zip features [0..<length features])"

text \<open>The comparison function handed to \<^verbatim>\<open>sort\<close> in \<^verbatim>\<open>reorderFeatures\<close>.\<close>

definition compareFeatures :: "heap \<Rightarrow> (ref \<rightharpoonup> nat) \<Rightarrow> ref \<Rightarrow> ref \<Rightarrow> error + int" where
  "compareFeatures H order a b =
     (let aIsRepoProvider = packageIsRepositoryProvider (pkg (H a));
          bIsRepoProvider = packageIsRepositoryProvider (pkg (H b))
      in if aIsRepoProvider \<noteq> bIsRepoProvider
         then Inr (if aIsRepoProvider then - 1 else 1)
         else (case nullthrows (order a) of
                 Inl e \<Rightarrow> Inl e
               | Inr aIndex \<Rightarrow>
                   (case nullthrows (order b) of
                      Inl e \<Rightarrow> Inl e
                    | Inr bIndex \<Rightarrow> Inr (int aIndex - int bIndex))))"

definition reorderFeatures :: "heap \<Rightarrow> ref list \<Rightarrow> error + ref list" where
  "reorderFeatures H features0 =
     (let features = features0
      in Array_sort (compareFeatures H (originalOrder features)) features)"

section \<open>Group index: \<^verbatim>\<open>groupFeatures\<close>\<close>

text \<open>
  The raw group definitions are an object from group names to values; the
  code checks each value with \<^verbatim>\<open>Array.isArray\<close>. The object is an association
  list whose first binding of a key is the one the object holds.
\<close>

datatype rawGroup = IsArray "string list" | NotArray

type_synonym rawFeatureGroups = "(string \<times> rawGroup) list"

definition Object_keys :: "('k \<times> 'v) list \<Rightarrow> 'k list" where
  "Object_keys obj = map fst obj"

definition namesToFeatures :: "heap \<Rightarrow> ref list \<Rightarrow> (string \<rightharpoonup> ref)" where
  "namesToFeatures H features =
     foldl (\<lambda>m feature. m(basename (path (H feature)) \<mapsto> feature)) Map.empty features"

text \<open>
  \<^verbatim>\<open>rawFeatureGroups[key].map(n => namesToFeatures.get(n)).filter(Boolean)\<close>:
  a name without a feature gives \<^verbatim>\<open>undefined\<close>, which the filter removes.
\<close>

definition featuresForKey :: "(string \<rightharpoonup> ref) \<Rightarrow> string list \<Rightarrow> ref list" where
  "featuresForKey names2features featureNames =
     concat (map (\<lambda>featureName. case names2features featureName of
                                   None \<Rightarrow> []
                                 | Some feature \<Rightarrow> [feature]) featureNames)"

definition groupFeatures :: "heap \<Rightarrow> ref list \<Rightarrow> rawFeatureGroups \<Rightarrow> (string, ref) MultiMap" where
  "groupFeatures H features raw =
     (let names2features = namesToFeatures H features
      in foldl (\<lambda>featureGroups key.
                  case map_of raw key of
                    Some (IsArray featureNames) \<Rightarrow>
                      MultiMap_set featureGroups key (featuresForKey names2features featureNames)
                  | _ \<Rightarrow> featureGroups)
               Map.empty (Object_keys raw))"

section \<open>The loader object\<close>

text \<open>
  Modelled from the spec: \<^verbatim>\<open>UniversalDisposable\<close> is imported from
  \<^verbatim>\<open>nuclide-commons\<close>, which is not among the sources. The spec describes it
  as a composite handle whose release tears down all the subscriptions it
  holds; the model keeps the \<^verbatim>\<open>disposed\<close> flag and the subscriptions held.
\<close>

record UniversalDisposable =
  disposed :: bool
  teardowns :: "string list"

definition new_UniversalDisposable :: "string list \<Rightarrow> UniversalDisposable" where
  "new_UniversalDisposable ts = \<lparr>disposed = False, teardowns = ts\<rparr>"

text \<open>
  The fields of \<^verbatim>\<open>class FeatureLoader\<close>; \<^verbatim>\<open>this._x\<close> is \<open>this_x\<close>. Of
  \<^verbatim>\<open>_config\<close> only whether it has been built is kept: no property below reads
  the schema that \<^verbatim>\<open>buildConfig\<close> produces.
\<close>

record FeatureLoader =
  this_activationDisposable :: "UniversalDisposable option"
  this_loadDisposable :: UniversalDisposable
  this_config :: "unit option"
  this_features :: "ref list"
  this_featureGroups :: "(string, ref) MultiMap"
  this_pkgName :: string
  this_path :: string
  this_currentlyActiveFeatures :: "ref JSSet"

record FeatureLoaderParams =
  param_path :: string
  param_features :: "ref list"
  param_featureGroups :: "rawFeatureGroups option"

text \<open>The constructor. \<^verbatim>\<open>reorderFeatures\<close> may throw through \<^verbatim>\<open>nullthrows\<close>.\<close>

definition new_FeatureLoader :: "heap \<Rightarrow> FeatureLoaderParams \<Rightarrow> error + FeatureLoader" where
  "new_FeatureLoader H params =
     (case reorderFeatures H (param_features params) of
        Inl e \<Rightarrow> Inl e
      | Inr features \<Rightarrow>
          Inr \<lparr> this_activationDisposable = None,
                this_loadDisposable = new_UniversalDisposable [],
                this_config = None,
                this_features = features,
                this_featureGroups =
                  groupFeatures H features
                    (case param_featureGroups params of None \<Rightarrow> [] | Some g \<Rightarrow> g),
                this_pkgName = packageNameFromPath (param_path params),
                this_path = param_path params,
                this_currentlyActiveFeatures = [] \<rparr>)"

section \<open>Enablement: \<^verbatim>\<open>getEnabledFeatures\<close>\<close>

text \<open>
  The two configuration values that \<^verbatim>\<open>atom.config.get\<close> returns: the rule
  table under \<^verbatim>\<open>use\<close> and the selection under \<^verbatim>\<open>enabledFeatureGroups\<close>, each
  \<open>None\<close> when the key is unset.
\<close>

record AtomConfig =
  cfg_use :: "(string \<rightharpoonup> jsval) option"
  cfg_enabledFeatureGroups :: "string list option"

text \<open>
  \<^verbatim>\<open>idx(useFeatureRules, _ => _[featureName])\<close>. The rule table is a plain
  object, so reading a member by name also finds the members that every
  object inherits from \<^verbatim>\<open>Object.prototype\<close>: for such a name, and without an
  entry of the table's own, the read gives the inherited function (for
  \<^verbatim>\<open>__proto__\<close> the prototype object), which is neither \<^verbatim>\<open>null\<close> nor
  \<^verbatim>\<open>undefined\<close>.
\<close>

definition Object_prototype_members :: "string list" where
  "Object_prototype_members =
     [''constructor'', ''__defineGetter__'', ''__defineSetter__'', ''hasOwnProperty'',
      ''__lookupGetter__'', ''__lookupSetter__'', ''isPrototypeOf'', ''propertyIsEnumerable'',
      ''toString'', ''valueOf'', ''__proto__'', ''toLocaleString'']"

definition idx_rule :: "(string \<rightharpoonup> jsval) option \<Rightarrow> string \<Rightarrow> jsval" where
  "idx_rule useFeatureRules featureName =
     (case useFeatureRules of
        None \<Rightarrow> JUndefined
      | Some rules \<Rightarrow>
          (case rules featureName of
             Some v \<Rightarrow> v
           | None \<Rightarrow>
               if featureName \<in> set Object_prototype_members then JObject else JUndefined))"

definition featureIsEnabled ::
  "heap \<Rightarrow> (string \<rightharpoonup> jsval) option \<Rightarrow> ref JSSet \<Rightarrow> ref JSSet \<Rightarrow> ref \<Rightarrow> bool" where
  "featureIsEnabled H useFeatureRules featuresInEnabledGroups requiredFeatures feature =
     (let featureName = packageNameFromPath (path (H feature));
          rawRule = idx_rule useFeatureRules featureName;
          rule = (if is_nullish rawRule then JStr (getFeatureDefaultValue (H feature)) else rawRule)
      in rule = JStr ALWAYS_ENABLED \<or>
         rule = JBool True \<or>
         (Set_has featuresInEnabledGroups feature \<and> rule = JStr DEFAULT) \<or>
         Set_has requiredFeatures feature)"

definition getEnabledFeatures :: "heap \<Rightarrow> FeatureLoader \<Rightarrow> AtomConfig \<Rightarrow> ref JSSet" where
  "getEnabledFeatures H this config =
     (let useFeatureRules = cfg_use config;
          enabledFeatureGroups = cfg_enabledFeatureGroups config;
          featuresInEnabledGroups =
            (case enabledFeatureGroups of
               Some groups \<Rightarrow>
                 setUnion (map (\<lambda>featureGroup. MultiMap_get (this_featureGroups this) featureGroup) groups)
             | None \<Rightarrow> new_Set (this_features this));
          requiredFeatures = MultiMap_get (this_featureGroups this) REQUIRED_FEATURE_GROUP
      in new_Set (filter (featureIsEnabled H useFeatureRules featuresInEnabledGroups requiredFeatures)
                         (this_features this)))"

section \<open>The host\<close>

text \<open>
  The global \<^verbatim>\<open>atom\<close> is the host. Its package manager is outside the
  sources, so it is a parameter: a function that, given everything that has
  happened so far and the call now made, either throws or returns. The only
  results the code looks at are the package objects that \<^verbatim>\<open>getLoadedPackage\<close>
  and \<^verbatim>\<open>getActivePackage\<close> return, \<open>None\<close> for \<^verbatim>\<open>null\<close> or \<^verbatim>\<open>undefined\<close>.
  Registrations (deserializers, subscriptions, \<^verbatim>\<open>localStorage\<close>) are recorded
  as events and taken to succeed. So is every read of the configuration with
  \<^verbatim>\<open>atom.config.get\<close>; the configuration that the reads return is a
  parameter of the methods that read it.
\<close>

type_synonym Package = nat

datatype call =
    GetLoadedPackage string
  | GetActivePackage string
  | ActivatePackage string
  | DeactivatePackage string bool
  | SerializePackage Package

datatype outcome = Throws thrown | Returns "Package option"

datatype event =
    Atom call outcome
  | ConsoleError string
  | AddDeserializer string
  | SetPackageName string
  | OnDidLoadPackage string
  | LocalStorageRemoveItem Package
  | OnDidChange string
  | Dispose string
  | ConfigGet string

type_synonym world = "event list"
type_synonym host = "world \<Rightarrow> call \<Rightarrow> outcome"

definition atom_call :: "host \<Rightarrow> call \<Rightarrow> world \<Rightarrow> outcome \<times> world" where
  "atom_call atom c w = (let r = atom w c in (r, w @ [Atom c r]))"

definition dquote :: string where
  "dquote = [CHR 0x22]"

text \<open>\<^verbatim>\<open>`Error deactivating "${name}": ${err.message}`\<close>\<close>

definition deactivateError :: "string \<Rightarrow> string \<Rightarrow> string" where
  "deactivateError name message =
     ''Error deactivating '' @ dquote @ name @ dquote @ '': '' @ message"

text \<open>\<^verbatim>\<open>`Error serializing "${name}": ${err.message}`\<close>\<close>

definition serializeError :: "string \<Rightarrow> string \<Rightarrow> string" where
  "serializeError name message =
     ''Error serializing '' @ dquote @ name @ dquote @ '': '' @ message"

text \<open>
  \<^verbatim>\<open>safeDeactivate\<close>. Both host calls are inside the \<^verbatim>\<open>try\<close>: the first
  component of the pair below is what the \<^verbatim>\<open>try\<close> block threw, if it threw.
  The \<^verbatim>\<open>catch\<close> block reads \<^verbatim>\<open>err.message\<close>, so for a thrown \<^verbatim>\<open>null\<close> or
  \<^verbatim>\<open>undefined\<close> it throws itself, before anything is logged, and that
  \<^verbatim>\<open>TypeError\<close> leaves the function.
\<close>

definition safeDeactivate ::
  "host \<Rightarrow> heap \<Rightarrow> ref \<Rightarrow> bool \<Rightarrow> world \<Rightarrow> (error + unit) \<times> world" where
  "safeDeactivate atom H feature suppressSerialization w =
     (let name = packageNameFromPath (path (H feature));
          (raised, w1) =
            (case atom_call atom (GetLoadedPackage name) w of
               (Throws err, w') \<Rightarrow> (Some err, w')
             | (Returns None, w') \<Rightarrow> (None, w')
             | (Returns (Some pack), w') \<Rightarrow>
                 (case atom_call atom (DeactivatePackage name suppressSerialization) w' of
                    (Throws err, w'') \<Rightarrow> (Some err, w'')
                  | (Returns _, w'') \<Rightarrow> (None, w'')))
      in case raised of
           None \<Rightarrow> (Inr (), w1)
         | Some Nullish \<Rightarrow> (Inl TypeError, w1)
         | Some (Message message) \<Rightarrow>
             (Inr (), w1 @ [ConsoleError (deactivateError name message)]))"

definition safeSerialize :: "host \<Rightarrow> heap \<Rightarrow> ref \<Rightarrow> world \<Rightarrow> (error + unit) \<times> world" where
  "safeSerialize atom H feature w =
     (let name = packageNameFromPath (path (H feature));
          (raised, w1) =
            (case atom_call atom (GetActivePackage name) w of
               (Throws err, w') \<Rightarrow> (Some err, w')
             | (Returns None, w') \<Rightarrow> (None, w')
             | (Returns (Some pack), w') \<Rightarrow>
                 (case atom_call atom (SerializePackage pack) w' of
                    (Throws err, w'') \<Rightarrow> (Some err, w'')
                  | (Returns _, w'') \<Rightarrow> (None, w'')))
      in case raised of
           None \<Rightarrow> (Inr (), w1)
         | Some Nullish \<Rightarrow> (Inl TypeError, w1)
         | Some (Message message) \<Rightarrow>
             (Inr (), w1 @ [ConsoleError (serializeError name message)]))"

text \<open>\<^verbatim>\<open>forEach\<close>: a throw of the callback leaves the loop.\<close>

fun forEach ::
  "('a \<Rightarrow> world \<Rightarrow> (error + unit) \<times> world) \<Rightarrow> 'a list \<Rightarrow> world \<Rightarrow> (error + unit) \<times> world" where
  "forEach callback [] w = (Inr (), w)"
| "forEach callback (x # xs) w =
     (case callback x w of
        (Inl e, w1) \<Rightarrow> (Inl e, w1)
      | (Inr _, w1) \<Rightarrow> forEach callback xs w1)"

section \<open>The lifecycle methods\<close>

text \<open>
  A method returns its result, \<open>Inl\<close> for an exception that leaves the
  method, together with the loader and the world as they are at that point.
\<close>

type_synonym 'a outcome_of = "(error + 'a) \<times> FeatureLoader \<times> world"


definition UniversalDisposable_dispose :: "UniversalDisposable \<Rightarrow> world \<Rightarrow> world" where
  "UniversalDisposable_dispose d w = (if disposed d then w else w @ map Dispose (teardowns d))"

definition getUseKeyPath :: "FeatureLoader \<Rightarrow> string" where
  "getUseKeyPath this = this_pkgName this @ ''.use''"

definition getEnabledFeatureGroupsKeyPath :: "FeatureLoader \<Rightarrow> string" where
  "getEnabledFeatureGroupsKeyPath this = this_pkgName this @ ''.enabledFeatureGroups''"

text \<open>
  The two reads of \<^verbatim>\<open>atom.config.get\<close> with which \<^verbatim>\<open>getEnabledFeatures\<close>
  begins. The function \<open>getEnabledFeatures\<close> above computes from the values
  read; a method that calls \<^verbatim>\<open>this.getEnabledFeatures()\<close> records the reads.
\<close>

definition config_reads :: "FeatureLoader \<Rightarrow> event list" where
  "config_reads this =
     [ConfigGet (getUseKeyPath this), ConfigGet (getEnabledFeatureGroupsKeyPath this)]"


text \<open>
  The first loop of \<^verbatim>\<open>updateActiveFeatures\<close>: \<^verbatim>\<open>activatePackage\<close> is called
  outside any \<^verbatim>\<open>try\<close>, so a throw leaves the loop and the method.
\<close>

fun activateLoop :: "host \<Rightarrow> heap \<Rightarrow> ref JSSet \<Rightarrow> ref list \<Rightarrow> world \<Rightarrow> (error + unit) \<times> world" where
  "activateLoop atom H active [] w = (Inr (), w)"
| "activateLoop atom H active (feature # rest) w =
     (if \<not> Set_has active feature
      then (case atom_call atom (ActivatePackage (path (H feature))) w of
              (Throws err, w1) \<Rightarrow> (Inl (HostError err), w1)
            | (Returns _, w1) \<Rightarrow> activateLoop atom H active rest w1)
      else activateLoop atom H active rest w)"

text \<open>The second loop: \<^verbatim>\<open>safeDeactivate(feature)\<close>, the second argument defaulted to \<^verbatim>\<open>false\<close>.\<close>

fun deactivateLoop :: "host \<Rightarrow> heap \<Rightarrow> ref JSSet \<Rightarrow> ref list \<Rightarrow> world \<Rightarrow> (error + unit) \<times> world" where
  "deactivateLoop atom H featuresToActivate [] w = (Inr (), w)"
| "deactivateLoop atom H featuresToActivate (feature # rest) w =
     (if \<not> Set_has featuresToActivate feature
      then (case safeDeactivate atom H feature False w of
              (Inl e, w1) \<Rightarrow> (Inl e, w1)
            | (Inr _, w1) \<Rightarrow> deactivateLoop atom H featuresToActivate rest w1)
      else deactivateLoop atom H featuresToActivate rest w)"

definition updateActiveFeatures ::
  "host \<Rightarrow> heap \<Rightarrow> AtomConfig \<Rightarrow> FeatureLoader \<Rightarrow> world \<Rightarrow> unit outcome_of" where
  "updateActiveFeatures atom H config this w =
     (let featuresToActivate = getEnabledFeatures H this config;
          w0 = w @ config_reads this
      in case activateLoop atom H (this_currentlyActiveFeatures this) featuresToActivate w0 of
           (Inl e, w1) \<Rightarrow> (Inl e, this, w1)
         | (Inr _, w1) \<Rightarrow>
             (case deactivateLoop atom H featuresToActivate
                     (this_currentlyActiveFeatures this) w1 of
                (Inl e, w2) \<Rightarrow> (Inl e, this, w2)
              | (Inr _, w2) \<Rightarrow>
                  (Inr (), this\<lparr>this_currentlyActiveFeatures := featuresToActivate\<rparr>, w2)))"

definition activate :: "host \<Rightarrow> heap \<Rightarrow> AtomConfig \<Rightarrow> FeatureLoader \<Rightarrow> world \<Rightarrow> unit outcome_of" where
  "activate atom H config this w =
     (if this_activationDisposable this \<noteq> None then (Inl InvariantViolation, this, w)
      else case atom_call atom (GetLoadedPackage (this_pkgName this)) w of
             (Throws err, w1) \<Rightarrow> (Inl (HostError err), this, w1)
           | (Returns None, w1) \<Rightarrow> (Inl InvariantViolation, this, w1)
           | (Returns (Some rootPackage), w1) \<Rightarrow>
               (let w2 = w1 @ [LocalStorageRemoveItem rootPackage];
                    w3 = w2 @ [OnDidChange (getUseKeyPath this),
                               OnDidChange (getEnabledFeatureGroupsKeyPath this)];
                    this1 = this\<lparr>this_activationDisposable :=
                              Some (new_UniversalDisposable
                                      [getUseKeyPath this, getEnabledFeatureGroupsKeyPath this])\<rparr>
                in updateActiveFeatures atom H config this1 w3))"

definition deactivate :: "host \<Rightarrow> heap \<Rightarrow> FeatureLoader \<Rightarrow> world \<Rightarrow> unit outcome_of" where
  "deactivate atom H this w =
     (case this_activationDisposable this of
        None \<Rightarrow> (Inl InvariantViolation, this, w)
      | Some d \<Rightarrow>
          if disposed d then (Inl InvariantViolation, this, w)
          else
            (case forEach (\<lambda>feature. safeDeactivate atom H feature True)
                    (this_currentlyActiveFeatures this) w of
               (Inl e, w1) \<Rightarrow> (Inl e, this, w1)
             | (Inr _, w1) \<Rightarrow>
                 (Inr (),
                  this\<lparr>this_currentlyActiveFeatures := [], this_activationDisposable := None\<rparr>,
                  UniversalDisposable_dispose d w1)))"


section \<open>The specification's vocabulary\<close>

text \<open>
  The definitions of this section are written from the words of the
  specification, to be compared with the code above.
\<close>

subsection \<open>Enablement resolution\<close>

datatype Rule = Always | Never | Default

text \<open>How a rule is written in the configuration.\<close>

fun rule_value :: "Rule \<Rightarrow> jsval" where
  "rule_value Always = JStr ''always''"
| "rule_value Never = JStr ''never''"
| "rule_value Default = JStr ''default''"

text \<open>A rule table may be unset as a whole, and it is sparse.\<close>

definition encode_rules :: "(string \<rightharpoonup> Rule) option \<Rightarrow> (string \<rightharpoonup> jsval) option" where
  "encode_rules ruleTable = map_option (\<lambda>t. map_option rule_value \<circ> t) ruleTable"

definition spec_eligibleByGroup ::
  "ref list \<Rightarrow> string list option \<Rightarrow> (string \<Rightarrow> ref set) \<Rightarrow> ref set" where
  "spec_eligibleByGroup features enabledGroups groupIndex =
     (case enabledGroups of
        None \<Rightarrow> set features
      | Some gs \<Rightarrow> \<Union> (groupIndex ` set gs))"

definition spec_rule :: "(string \<rightharpoonup> Rule) option \<Rightarrow> string \<Rightarrow> Rule" where
  "spec_rule ruleTable ident =
     (case (case ruleTable of None \<Rightarrow> None | Some t \<Rightarrow> t ident) of
        Some r \<Rightarrow> r
      | None \<Rightarrow> if prefix ''sample-'' ident then Never else Default)"


text \<open>
  A feature name that, for want of an entry of its own in a rule table that
  is set, reads an inherited member of the table object.
\<close>

definition inherited_member :: "(string \<rightharpoonup> Rule) option \<Rightarrow> string \<Rightarrow> bool" where
  "inherited_member ruleTable ident =
     (case ruleTable of
        None \<Rightarrow> False
      | Some t \<Rightarrow> t ident = None \<and> ident \<in> set Object_prototype_members)"

text \<open>The group index of a loader, read as the specification's mapping to sets.\<close>

definition groupIndexOf :: "FeatureLoader \<Rightarrow> string \<Rightarrow> ref set" where
  "groupIndexOf this g = set (MultiMap_get (this_featureGroups this) g)"

subsection \<open>Activation order\<close>

definition isRepositoryProvider :: "heap \<Rightarrow> ref \<Rightarrow> bool" where
  "isRepositoryProvider H feature = packageIsRepositoryProvider (pkg (H feature))"

text \<open>
  A stable partition: the elements that satisfy the predicate, in their
  order, then the others, in their order.
\<close>

definition stable_partition :: "('a \<Rightarrow> bool) \<Rightarrow> 'a list \<Rightarrow> 'a list" where
  "stable_partition P xs = filter P xs @ filter (\<lambda>x. \<not> P x) xs"

definition providerKey :: "heap \<Rightarrow> ref \<Rightarrow> nat" where
  "providerKey H f = (if isRepositoryProvider H f then 0 else 1)"

subsection \<open>Failure-isolated host calls\<close>

text \<open>
  What the host answers to a call whose failure is isolated: it returns, or
  it throws something of which the message can be read.
\<close>

datatype answer = Failed string | Answered "Package option"

fun host_outcome :: "answer \<Rightarrow> outcome" where
  "host_outcome (Failed m) = Throws (Message m)"
| "host_outcome (Answered r) = Returns r"

text \<open>
  What a failure-isolated deactivation of the feature named \<open>n\<close> leaves in
  the world, given what the host answered to the lookup and to the request:
  the lookup; the request only if the lookup returned a package; and after a
  throw of either, one logged line, which reads
  \<^verbatim>\<open>Error deactivating "n": m\<close> for the message \<open>m\<close>; and nothing else.
\<close>

definition isolated_deactivation :: "string \<Rightarrow> bool \<Rightarrow> answer \<Rightarrow> answer \<Rightarrow> event list" where
  "isolated_deactivation n suppress looked deactivated =
     Atom (GetLoadedPackage n) (host_outcome looked) #
     (case looked of
        Failed m \<Rightarrow>
          [ConsoleError (''Error deactivating '' @ [CHR 0x22] @ n @ [CHR 0x22] @ '': '' @ m)]
      | Answered None \<Rightarrow> []
      | Answered (Some pack) \<Rightarrow>
          Atom (DeactivatePackage n suppress) (host_outcome deactivated) #
          (case deactivated of
             Failed m \<Rightarrow>
               [ConsoleError (''Error deactivating '' @ [CHR 0x22] @ n @ [CHR 0x22] @ '': '' @ m)]
           | Answered r \<Rightarrow> []))"


text \<open>A batch: one isolated block for every feature of the list, in order.\<close>

definition deactivations ::
  "heap \<Rightarrow> bool \<Rightarrow> ref list \<Rightarrow> (answer \<times> answer) list \<Rightarrow> event list" where
  "deactivations H suppress fs outs =
     concat (map2 (\<lambda>f (looked, deactivated).
                     isolated_deactivation (packageNameFromPath (path (H f))) suppress
                       looked deactivated)
                  fs outs)"


text \<open>Activation requests that all returned, one for every feature of the list.\<close>

definition activations :: "heap \<Rightarrow> ref list \<Rightarrow> Package option list \<Rightarrow> event list" where
  "activations H fs rs = map2 (\<lambda>f r. Atom (ActivatePackage (path (H f))) (Returns r)) fs rs"

text \<open>A host that never throws \<^verbatim>\<open>null\<close> or \<^verbatim>\<open>undefined\<close>.\<close>

definition throws_readable :: "host \<Rightarrow> bool" where
  "throws_readable atom = (\<forall>w c. atom w c \<noteq> Throws Nullish)"

text \<open>
  The answer that stands for an outcome; for a thrown \<^verbatim>\<open>null\<close> or
  \<^verbatim>\<open>undefined\<close>, which has none, an arbitrary one.
\<close>

fun the_answer :: "outcome \<Rightarrow> answer" where
  "the_answer (Throws (Message m)) = Failed m"
| "the_answer (Throws Nullish) = Failed []"
| "the_answer (Returns r) = Answered r"

text \<open>The features to activate and to deactivate in a reconciliation pass.\<close>

definition toActivate :: "heap \<Rightarrow> FeatureLoader \<Rightarrow> AtomConfig \<Rightarrow> ref list" where
  "toActivate H this config =
     filter (\<lambda>f. \<not> Set_has (this_currentlyActiveFeatures this) f)
            (getEnabledFeatures H this config)"

definition toDeactivate :: "heap \<Rightarrow> FeatureLoader \<Rightarrow> AtomConfig \<Rightarrow> ref list" where
  "toDeactivate H this config =
     filter (\<lambda>f. \<not> Set_has (getEnabledFeatures H this config) f)
            (this_currentlyActiveFeatures this)"




fun deactivate_request_of :: "event \<Rightarrow> string list" where
  "deactivate_request_of (Atom (DeactivatePackage n s) r) = [n]"
| "deactivate_request_of _ = []"



definition observe :: "(event \<Rightarrow> 'a list) \<Rightarrow> world \<Rightarrow> 'a list" where
  "observe f w = concat (map f w)"

subsection \<open>Lifecycle\<close>


section \<open>A small catalog\<close>

text \<open>
  The scenario of the specification: three features, the first of which
  provides the repository service; a required group holding the third, a
  group \<open>g1\<close> holding the first, and a group that names no feature at all.
\<close>

definition ex_heap :: heap where
  "ex_heap r =
     (if r = 10 then \<lparr>path = ''/pkgs/F1'',
                      pkg = \<lparr>providedServices = Some [''atom.repository-provider'' \<mapsto> JObject]\<rparr>\<rparr>
      else if r = 11 then \<lparr>path = ''/pkgs/F2'', pkg = \<lparr>providedServices = None\<rparr>\<rparr>
      else \<lparr>path = ''/pkgs/F3/'', pkg = \<lparr>providedServices = Some Map.empty\<rparr>\<rparr>)"

definition ex_groups :: rawFeatureGroups where
  "ex_groups = [(''nuclide-required'', IsArray [''F3'']),
                (''g1'', IsArray [''F1'', ''F9'']),
                (''ghost'', IsArray [''nope'', ''missing''])]"


definition ex_index :: "(string, ref) MultiMap" where
  "ex_index = [''nuclide-required'' \<mapsto> [12], ''g1'' \<mapsto> [10], ''ghost'' \<mapsto> []]"

definition ex_loader :: FeatureLoader where
  "ex_loader = \<lparr> this_activationDisposable = None,
                 this_loadDisposable = \<lparr>disposed = False, teardowns = []\<rparr>,
                 this_config = None,
                 this_features = [10, 11, 12],
                 this_featureGroups = ex_index,
                 this_pkgName = ''nuclide'',
                 this_path = ''/pkgs/nuclide'',
                 this_currentlyActiveFeatures = [] \<rparr>"


definition ex_config :: AtomConfig where
  "ex_config = \<lparr>cfg_use = Some [''F2'' \<mapsto> JStr ''always''],
                cfg_enabledFeatureGroups = Some [''g1'']\<rparr>"

text \<open>A configuration under which the first feature is off and the other two are on.\<close>

definition ex_config_without_F1 :: AtomConfig where
  "ex_config_without_F1 = \<lparr>cfg_use = Some [''F1'' \<mapsto> JStr ''never''],
                           cfg_enabledFeatureGroups = None\<rparr>"

text \<open>The loader with the first two features active, and after \<^verbatim>\<open>activate\<close>.\<close>

definition ex_loader_F1_F2 :: FeatureLoader where
  "ex_loader_F1_F2 = ex_loader\<lparr>this_currentlyActiveFeatures := [10, 11]\<rparr>"


text \<open>
  Hosts. The first reports every package loaded, reports \<open>F2\<close> inactive,
  fails every serialization and the deactivation of \<open>F2\<close>. The second throws
  when asked to activate \<open>F2\<close>. The third knows no package. The fourth
  throws \<^verbatim>\<open>null\<close> from every deactivation and from every lookup of an active
  package.
\<close>

definition ex_host :: host where
  "ex_host w c =
     (case c of
        GetLoadedPackage n \<Rightarrow> Returns (Some 7)
      | GetActivePackage n \<Rightarrow> (if n = ''F2'' then Returns None else Returns (Some 7))
      | ActivatePackage p \<Rightarrow> Returns None
      | DeactivatePackage n s \<Rightarrow>
          (if n = ''F2'' then Throws (Message ''stuck'') else Returns None)
      | SerializePackage p \<Rightarrow> Throws (Message ''cannot serialize''))"

definition cx_host_throwing :: host where
  "cx_host_throwing w c =
     (case c of
        GetLoadedPackage n \<Rightarrow> Returns (Some 7)
      | GetActivePackage n \<Rightarrow> Returns (Some 7)
      | ActivatePackage p \<Rightarrow>
          (if p = ''/pkgs/F2'' then Throws (Message ''boom'') else Returns None)
      | DeactivatePackage n s \<Rightarrow> Returns None
      | SerializePackage p \<Rightarrow> Returns None)"

definition cx_host_unloaded :: host where
  "cx_host_unloaded w c = Returns None"


text \<open>
  A catalog of one feature, named \<open>constructor\<close>, without groups, and a rule
  table that is set and empty.
\<close>

definition cx_constructor_heap :: heap where
  "cx_constructor_heap r = \<lparr>path = ''/pkgs/constructor'', pkg = \<lparr>providedServices = None\<rparr>\<rparr>"

definition cx_constructor_params :: FeatureLoaderParams where
  "cx_constructor_params = \<lparr>param_path = ''/pkgs/nuclide'', param_features = [20],
                            param_featureGroups = None\<rparr>"

definition cx_constructor_loader :: FeatureLoader where
  "cx_constructor_loader = ex_loader\<lparr>this_features := [20], this_featureGroups := Map.empty\<rparr>"



section \<open>Sets, maps and the collection helpers\<close>

lemma set_foldl_Set_add: "set (foldl Set_add acc xs) = set acc \<union> set xs"
  by (induction xs arbitrary: acc) (auto simp: Set_add_def Set_has_def)

lemma distinct_foldl_Set_add: "distinct acc \<Longrightarrow> distinct (foldl Set_add acc xs)"
  by (induction xs arbitrary: acc) (auto simp: Set_add_def Set_has_def)

lemma set_new_Set: "set (new_Set xs) = set xs"
  by (simp add: new_Set_def set_foldl_Set_add)

lemma distinct_new_Set: "distinct (new_Set xs)"
  by (simp add: new_Set_def distinct_foldl_Set_add)

lemma set_foldl_union:
  "set (foldl (\<lambda>acc s. foldl Set_add acc s) acc sets) = set acc \<union> \<Union> (set ` set sets)"
  by (induction sets arbitrary: acc) (auto simp: set_foldl_Set_add)

lemma set_setUnion: "set (setUnion sets) = \<Union> (set ` set sets)"
  by (simp add: setUnion_def set_foldl_union)

lemma foldl_upd_map_of:
  "foldl (\<lambda>m (k, v). m(k \<mapsto> v)) m0 es = m0 ++ map_of (rev es)"
  by (induction es arbitrary: m0)
     (auto simp: map_add_upd_left fun_eq_iff map_add_def split: option.splits)

lemma new_Map_map_of: "new_Map es = map_of (rev es)"
  by (simp add: new_Map_def foldl_upd_map_of)

lemma startsWith_prefix: "startsWith s p = prefix p s"
  unfolding startsWith_def
  by (metis append_eq_conv_conj prefix_def append_take_drop_id)

section \<open>Enablement\<close>

lemma rule_of_encoded:
  "(if is_nullish (idx_rule (encode_rules ruleTable) n)
    then JStr (getFeatureDefaultValue F) else idx_rule (encode_rules ruleTable) n)
   = (if inherited_member ruleTable n then JObject
      else case (case ruleTable of None \<Rightarrow> None | Some t \<Rightarrow> t n) of
             Some r \<Rightarrow> rule_value r
           | None \<Rightarrow> JStr (getFeatureDefaultValue F))"
proof (cases ruleTable)
  case None
  then show ?thesis by (simp add: idx_rule_def encode_rules_def inherited_member_def)
next
  case (Some t)
  show ?thesis
  proof (cases "t n")
    case None
    with Some show ?thesis by (simp add: idx_rule_def encode_rules_def inherited_member_def)
  next
    case (Some r)
    with \<open>ruleTable = Some t\<close> show ?thesis
      by (cases r) (simp_all add: idx_rule_def encode_rules_def inherited_member_def)
  qed
qed

lemma rule_value_eq [simp]:
  "rule_value r = JStr ''always'' \<longleftrightarrow> r = Always"
  "rule_value r = JStr ''default'' \<longleftrightarrow> r = Default"
  "rule_value r \<noteq> JBool b"
  by (cases r; simp)+

text \<open>
  The filter of \<^verbatim>\<open>getEnabledFeatures\<close> on every feature name: a name that
  reads an inherited member passes through the required group only.
\<close>

lemma featureIsEnabled_spec:
  "featureIsEnabled H (encode_rules ruleTable) elig req f =
     ((\<not> inherited_member ruleTable (basename (path (H f))) \<and>
       (spec_rule ruleTable (basename (path (H f))) = Always \<or>
        (spec_rule ruleTable (basename (path (H f))) = Default \<and> f \<in> set elig))) \<or>
      f \<in> set req)"
  unfolding featureIsEnabled_def Let_def rule_of_encoded
  by (auto simp: spec_rule_def Set_has_def getFeatureDefaultValue_def packageNameFromPath_def
        startsWith_prefix ALWAYS_ENABLED_def DEFAULT_def NEVER_ENABLED_def split: option.splits)

lemma getEnabledFeatures_distinct: "distinct (getEnabledFeatures H this config)"
  by (simp add: getEnabledFeatures_def Let_def distinct_new_Set)

lemma getEnabledFeatures_subset:
  "set (getEnabledFeatures H this config) \<subseteq> set (this_features this)"
  by (auto simp: getEnabledFeatures_def Let_def set_new_Set)

lemma getEnabledFeatures_cong:
  "this_features a = this_features b \<Longrightarrow> this_featureGroups a = this_featureGroups b \<Longrightarrow>
   getEnabledFeatures H a config = getEnabledFeatures H b config"
  by (simp add: getEnabledFeatures_def Let_def cong: option.case_cong)

lemma featureIsEnabled_true_as_always:
  assumes "rules n = Some (JBool True)"
  shows "featureIsEnabled H (Some rules) elig req f
       = featureIsEnabled H (Some (rules(n \<mapsto> JStr ALWAYS_ENABLED))) elig req f"
  using assms by (auto simp: featureIsEnabled_def Let_def idx_rule_def)

section \<open>Activation order\<close>

lemma originalOrder_nth:
  assumes "distinct fs" "i < length fs"
  shows "originalOrder fs (fs ! i) = Some i"
proof -
  have d: "distinct (map fst (rev (zip fs [0..<length fs])))"
    using assms(1) by (simp add: rev_map [symmetric])
  have "(fs ! i, i) \<in> set (rev (zip fs [0..<length fs]))"
    using assms(2) by (auto simp: set_zip intro!: exI [of _ i])
  with d show ?thesis
    unfolding originalOrder_def new_Map_map_of by (simp only: map_of_eq_Some_iff)
qed

lemma originalOrder_split:
  assumes "distinct (pre @ x # xs)"
  shows "originalOrder (pre @ x # xs) x = Some (length pre)"
    and "y \<in> set xs \<Longrightarrow> \<exists>j. originalOrder (pre @ x # xs) y = Some j \<and> length pre < j"
proof -
  let ?fs = "pre @ x # xs"
  show "originalOrder ?fs x = Some (length pre)"
    using originalOrder_nth [OF assms, of "length pre"] by simp
  assume "y \<in> set xs"
  then obtain k where k: "k < length xs" "xs ! k = y"
    by (auto simp: in_set_conv_nth)
  then have "?fs ! (length pre + Suc k) = y"
    by (simp add: nth_append)
  moreover have "length pre + Suc k < length ?fs" using k by simp
  ultimately have "originalOrder ?fs y = Some (length pre + Suc k)"
    using originalOrder_nth [OF assms, of "length pre + Suc k"] by simp
  then show "\<exists>j. originalOrder ?fs y = Some j \<and> length pre < j" by simp
qed

lemma originalOrder_defined:
  assumes "a \<in> set fs"
  shows "\<exists>i. originalOrder fs a = Some i"
proof -
  have "a \<in> fst ` set (rev (zip fs [0..<length fs]))"
    using assms by (force simp: set_zip in_set_conv_nth)
  then have "map_of (rev (zip fs [0..<length fs])) a \<noteq> None"
    by (simp only: map_of_eq_None_iff not_not)
  then show ?thesis by (auto simp: originalOrder_def new_Map_map_of)
qed

text \<open>An earlier feature of the same class compares smaller than a later one.\<close>

lemma compare_earlier:
  assumes "distinct (pre @ x # xs)" "y \<in> set xs"
    "isRepositoryProvider H x = isRepositoryProvider H y"
  shows "\<exists>c. compareFeatures H (originalOrder (pre @ x # xs)) x y = Inr c \<and> c < 0"
proof -
  obtain j where "originalOrder (pre @ x # xs) y = Some j" "length pre < j"
    using originalOrder_split(2) [OF assms(1,2)] by blast
  then show ?thesis
    using originalOrder_split(1) [OF assms(1)] assms(3)
    by (simp add: compareFeatures_def isRepositoryProvider_def nullthrows_def)
qed

lemma compare_provider_first:
  assumes "isRepositoryProvider H x" "\<not> isRepositoryProvider H y"
  shows "compareFeatures H order x y = Inr (- 1)" "compareFeatures H order y x = Inr 1"
  using assms by (simp_all add: compareFeatures_def isRepositoryProvider_def)

text \<open>On the elements of the array the comparison never throws, and it respects the classes.\<close>

lemma compare_defined:
  assumes "a \<in> set fs" "b \<in> set fs"
  shows "\<exists>c. compareFeatures H (originalOrder fs) a b = Inr c \<and>
             (c \<le> 0 \<longrightarrow> providerKey H a \<le> providerKey H b) \<and>
             (0 < c \<longrightarrow> providerKey H b \<le> providerKey H a)"
proof -
  obtain i j where "originalOrder fs a = Some i" "originalOrder fs b = Some j"
    using originalOrder_defined assms by blast
  then show ?thesis
    by (simp add: compareFeatures_def providerKey_def isRepositoryProvider_def nullthrows_def)
qed

lemma sort_insert_front:
  assumes "\<And>y. y \<in> set ys \<Longrightarrow> \<exists>c. cmp x y = Inr c \<and> c \<le> 0"
  shows "sort_insert cmp x ys = Inr (x # ys)"
proof (cases ys)
  case Nil
  then show ?thesis by simp
next
  case (Cons y ys')
  then obtain c where "cmp x y = Inr c" "c \<le> 0" using assms [of y] by auto
  with Cons show ?thesis by simp
qed

lemma sort_insert_skip:
  assumes "\<And>y. y \<in> set as \<Longrightarrow> \<exists>c. cmp x y = Inr c \<and> 0 < c"
    and "sort_insert cmp x bs = Inr zs"
  shows "sort_insert cmp x (as @ bs) = Inr (as @ zs)"
  using assms(1)
proof (induction as)
  case Nil
  then show ?case using assms(2) by simp
next
  case (Cons a as)
  obtain c where c: "cmp x a = Inr c" "0 < c" using Cons.prems [of a] by auto
  have "sort_insert cmp x (as @ bs) = Inr (as @ zs)"
    using Cons.IH Cons.prems by simp
  with c show ?case by simp
qed

lemma sort_insert_stable_partition:
  assumes d: "distinct (pre @ x # xs)"
  shows "sort_insert (compareFeatures H (originalOrder (pre @ x # xs))) x
           (stable_partition (isRepositoryProvider H) xs)
         = Inr (stable_partition (isRepositoryProvider H) (x # xs))"
proof (cases "isRepositoryProvider H x")
  case True
  have "\<exists>c. compareFeatures H (originalOrder (pre @ x # xs)) x y = Inr c \<and> c \<le> 0"
    if "y \<in> set (stable_partition (isRepositoryProvider H) xs)" for y
  proof (cases "isRepositoryProvider H y")
    case True
    have "y \<in> set xs" using that by (auto simp: stable_partition_def)
    then show ?thesis
      using compare_earlier [OF d, of y H] True \<open>isRepositoryProvider H x\<close> by force
  next
    case False
    then show ?thesis using compare_provider_first(1) [OF True False] by simp
  qed
  then have "sort_insert (compareFeatures H (originalOrder (pre @ x # xs))) x
           (stable_partition (isRepositoryProvider H) xs)
         = Inr (x # stable_partition (isRepositoryProvider H) xs)"
    by (rule sort_insert_front)
  with True show ?thesis by (simp add: stable_partition_def)
next
  case False
  let ?cmp = "compareFeatures H (originalOrder (pre @ x # xs))"
  let ?P = "isRepositoryProvider H"
  have others: "sort_insert ?cmp x (filter (\<lambda>y. \<not> ?P y) xs) = Inr (x # filter (\<lambda>y. \<not> ?P y) xs)"
  proof (rule sort_insert_front)
    fix y assume "y \<in> set (filter (\<lambda>y. \<not> ?P y) xs)"
    then have "y \<in> set xs" "?P x = ?P y" using False by auto
    then show "\<exists>c. ?cmp x y = Inr c \<and> c \<le> 0"
      using compare_earlier [OF d, of y H] by force
  qed
  have "sort_insert ?cmp x (filter ?P xs @ filter (\<lambda>y. \<not> ?P y) xs)
        = Inr (filter ?P xs @ x # filter (\<lambda>y. \<not> ?P y) xs)"
  proof (rule sort_insert_skip [OF _ others])
    fix y assume "y \<in> set (filter ?P xs)"
    then have "?P y" by simp
    then show "\<exists>c. ?cmp x y = Inr c \<and> 0 < c"
      using compare_provider_first(2) [OF _ False, of y] by simp
  qed
  with False show ?thesis by (simp add: stable_partition_def)
qed

lemma Array_sort_suffix:
  "distinct (pre @ xs) \<Longrightarrow>
   Array_sort (compareFeatures H (originalOrder (pre @ xs))) xs
     = Inr (stable_partition (isRepositoryProvider H) xs)"
proof (induction xs arbitrary: pre)
  case Nil
  then show ?case by (simp add: stable_partition_def)
next
  case (Cons x xs)
  have "distinct ((pre @ [x]) @ xs)" using Cons.prems by simp
  from Cons.IH [OF this]
  have "Array_sort (compareFeatures H (originalOrder (pre @ x # xs))) xs
          = Inr (stable_partition (isRepositoryProvider H) xs)" by simp
  then show ?case
    using sort_insert_stable_partition [OF Cons.prems, of H] by simp
qed

lemma reorderFeatures_distinct:
  "distinct features \<Longrightarrow>
   reorderFeatures H features = Inr (stable_partition (isRepositoryProvider H) features)"
  using Array_sort_suffix [of "[]" features H] by (simp add: reorderFeatures_def)

lemma sort_insert_sorted:
  assumes "x \<in> set fs" "set ys \<subseteq> set fs" "sorted (map (providerKey H) ys)"
  shows "\<exists>zs. sort_insert (compareFeatures H (originalOrder fs)) x ys = Inr zs \<and>
              mset zs = add_mset x (mset ys) \<and> sorted (map (providerKey H) zs)"
  using assms(2,3)
proof (induction ys)
  case Nil
  then show ?case by simp
next
  case (Cons y ys)
  let ?cmp = "compareFeatures H (originalOrder fs)"
  obtain c where c: "?cmp x y = Inr c"
    "c \<le> 0 \<longrightarrow> providerKey H x \<le> providerKey H y"
    "0 < c \<longrightarrow> providerKey H y \<le> providerKey H x"
    using compare_defined [OF assms(1), of y H] Cons.prems(1) by auto
  show ?case
  proof (cases "c \<le> 0")
    case True
    then have "sort_insert ?cmp x (y # ys) = Inr (x # y # ys)" using c(1) by simp
    moreover have "sorted (map (providerKey H) (x # y # ys))"
      using True c(2) Cons.prems(2) by auto
    ultimately show ?thesis by simp
  next
    case False
    obtain zs where zs: "sort_insert ?cmp x ys = Inr zs" "mset zs = add_mset x (mset ys)"
      "sorted (map (providerKey H) zs)"
      using Cons.IH Cons.prems by auto
    have "set zs = insert x (set ys)"
      using zs(2) by (metis set_mset_add_mset_insert set_mset_mset)
    then have "sorted (map (providerKey H) (y # zs))"
      using zs(3) False c(3) Cons.prems(2) by auto
    moreover have "sort_insert ?cmp x (y # ys) = Inr (y # zs)"
      using False c(1) zs(1) by simp
    ultimately show ?thesis using zs(2) by simp
  qed
qed

lemma Array_sort_sorted:
  assumes "set xs \<subseteq> set fs"
  shows "\<exists>ys. Array_sort (compareFeatures H (originalOrder fs)) xs = Inr ys \<and>
              mset ys = mset xs \<and> sorted (map (providerKey H) ys)"
  using assms
proof (induction xs)
  case Nil
  then show ?case by simp
next
  case (Cons x xs)
  then obtain ys where ys: "Array_sort (compareFeatures H (originalOrder fs)) xs = Inr ys"
    "mset ys = mset xs" "sorted (map (providerKey H) ys)" by auto
  have "set ys \<subseteq> set fs"
    using ys(2) Cons.prems by (metis set_mset_mset set_subset_Cons subset_trans)
  from sort_insert_sorted [OF _ this ys(3), of x]
  obtain zs where "sort_insert (compareFeatures H (originalOrder fs)) x ys = Inr zs"
    "mset zs = add_mset x (mset ys)" "sorted (map (providerKey H) zs)"
    using Cons.prems by auto
  then show ?case using ys by simp
qed

lemma sorted_key_partition:
  "sorted (map (providerKey H) ys) \<Longrightarrow> stable_partition (isRepositoryProvider H) ys = ys"
proof (induction ys)
  case Nil
  then show ?case by (simp add: stable_partition_def)
next
  case (Cons y ys)
  then have IH: "stable_partition (isRepositoryProvider H) ys = ys" by simp
  show ?case
  proof (cases "isRepositoryProvider H y")
    case True
    then show ?thesis using IH by (simp add: stable_partition_def)
  next
    case False
    then have "\<forall>z \<in> set ys. \<not> isRepositoryProvider H z"
      using Cons.prems by (auto simp: providerKey_def split: if_splits)
    then have "filter (isRepositoryProvider H) ys = []"
      "filter (\<lambda>x. \<not> isRepositoryProvider H x) ys = ys"
      by (simp_all add: filter_empty_conv)
    with False show ?thesis by (simp add: stable_partition_def)
  qed
qed

lemma reorderFeatures_total:
  "\<exists>ys. reorderFeatures H features = Inr ys \<and> mset ys = mset features \<and>
        stable_partition (isRepositoryProvider H) ys = ys"
  using Array_sort_sorted [of features features H] sorted_key_partition [of H]
  by (auto simp: reorderFeatures_def)

lemma new_FeatureLoader_total: "\<exists>this. new_FeatureLoader H params = Inr this"
  using reorderFeatures_total [of H "param_features params"]
  by (auto simp: new_FeatureLoader_def)

section \<open>Group index\<close>

lemma foldl_names_map_of:
  "foldl (\<lambda>m feature. m(g feature \<mapsto> feature)) m0 fs
     = m0 ++ map_of (rev (map (\<lambda>f. (g f, f)) fs))"
  by (induction fs arbitrary: m0) (auto simp: fun_eq_iff map_add_def split: option.splits)

lemma namesToFeatures_map_of:
  "namesToFeatures H fs = map_of (rev (map (\<lambda>f. (basename (path (H f)), f)) fs))"
  by (simp add: namesToFeatures_def foldl_names_map_of)

lemma namesToFeatures_Some:
  "namesToFeatures H fs n = Some f \<Longrightarrow> f \<in> set fs \<and> basename (path (H f)) = n"
  unfolding namesToFeatures_map_of by (auto dest!: map_of_SomeD)

lemma namesToFeatures_None:
  "(namesToFeatures H fs n = None) = (\<forall>f \<in> set fs. basename (path (H f)) \<noteq> n)"
  unfolding namesToFeatures_map_of by (force simp: map_of_eq_None_iff image_iff)

lemma set_featuresForKey:
  "set (featuresForKey m names) = {f. \<exists>n \<in> set names. m n = Some f}"
  by (auto simp: featuresForKey_def split: option.splits)

lemma featuresForKey_empty:
  "(\<forall>n \<in> set names. m n = None) \<Longrightarrow> featuresForKey m names = []"
  by (induction names) (auto simp: featuresForKey_def)

lemma foldl_groups:
  "foldl (\<lambda>featureGroups key.
            case map_of raw key of
              Some (IsArray featureNames) \<Rightarrow> MultiMap_set featureGroups key (F featureNames)
            | _ \<Rightarrow> featureGroups) m0 keys g
   = (if g \<in> set keys then
        (case map_of raw g of Some (IsArray ns) \<Rightarrow> Some (new_Set (F ns)) | _ \<Rightarrow> m0 g)
      else m0 g)"
  by (induction keys arbitrary: m0)
     (auto simp: MultiMap_set_def split: option.splits rawGroup.splits)

lemma groupFeatures_lookup:
  "groupFeatures H fs raw g =
     (case map_of raw g of
        Some (IsArray ns) \<Rightarrow> Some (new_Set (featuresForKey (namesToFeatures H fs) ns))
      | _ \<Rightarrow> None)"
proof -
  have "g \<notin> set (map fst raw) \<Longrightarrow> map_of raw g = None"
    by (simp add: map_of_eq_None_iff)
  then show ?thesis
    unfolding groupFeatures_def Let_def Object_keys_def foldl_groups
    by (auto split: option.splits rawGroup.splits)
qed

text \<open>Every member of a group of the index is a feature of the catalog.\<close>

lemma groupFeatures_members:
  "f \<in> set (MultiMap_get (groupFeatures H fs raw) g) \<Longrightarrow> f \<in> set fs"
  by (auto simp: MultiMap_get_def groupFeatures_lookup set_new_Set set_featuresForKey
      split: option.splits rawGroup.splits dest: namesToFeatures_Some)


section \<open>Host calls\<close>

lemma host_outcome_the_answer: "o1 \<noteq> Throws Nullish \<Longrightarrow> host_outcome (the_answer o1) = o1"
  by (cases o1 rule: the_answer.cases) simp_all

lemma safeDeactivate_shape:
  assumes "safeDeactivate atom H f s w = (Inr (), w')"
  shows "\<exists>o1 o2. w' = w @ isolated_deactivation (packageNameFromPath (path (H f))) s o1 o2"
proof -
  let ?n = "packageNameFromPath (path (H f))"
  let ?o1 = "atom w (GetLoadedPackage ?n)"
  let ?o2 = "atom (w @ [Atom (GetLoadedPackage ?n) ?o1]) (DeactivatePackage ?n s)"
  have "w' = w @ isolated_deactivation ?n s (the_answer ?o1) (the_answer ?o2)"
  proof (cases ?o1)
    case (Throws err)
    with assms show ?thesis
      by (cases err)
         (simp_all add: safeDeactivate_def atom_call_def Let_def isolated_deactivation_def
            deactivateError_def dquote_def)
  next
    case (Returns r)
    show ?thesis
    proof (cases r)
      case None
      with Returns assms show ?thesis
        by (simp add: safeDeactivate_def atom_call_def Let_def isolated_deactivation_def)
    next
      case (Some pack)
      show ?thesis
      proof (cases ?o2)
        case (Throws err)
        with Returns Some assms show ?thesis
          by (cases err)
             (simp_all add: safeDeactivate_def atom_call_def Let_def isolated_deactivation_def
                deactivateError_def dquote_def)
      next
        case (Returns r2)
        with \<open>?o1 = Returns r\<close> Some assms show ?thesis
          by (simp add: safeDeactivate_def atom_call_def Let_def isolated_deactivation_def)
      qed
    qed
  qed
  then show ?thesis by blast
qed


text \<open>On a host that never throws \<^verbatim>\<open>null\<close> or \<^verbatim>\<open>undefined\<close> the two functions return.\<close>

lemma safeDeactivate_returns:
  assumes "throws_readable atom"
  shows "\<exists>w'. safeDeactivate atom H f s w = (Inr (), w')"
proof -
  have "atom v c \<noteq> Throws Nullish" for v c
    using assms by (simp add: throws_readable_def)
  then show ?thesis
    by (auto simp: safeDeactivate_def atom_call_def Let_def
          split: outcome.splits thrown.splits option.splits)
qed



lemma deactivations_Cons:
  "deactivations H s (f # fs) ((o1, o2) # outs) =
     isolated_deactivation (packageNameFromPath (path (H f))) s o1 o2 @ deactivations H s fs outs"
  by (simp add: deactivations_def)






lemma deactivateLoop_shape:
  "deactivateLoop atom H wanted fs w = (Inr (), w') \<Longrightarrow>
   \<exists>outs. length outs = length (filter (\<lambda>f. \<not> Set_has wanted f) fs) \<and>
     w' = w @ deactivations H False (filter (\<lambda>f. \<not> Set_has wanted f) fs) outs"
proof (induction fs arbitrary: w)
  case Nil
  then show ?case by (simp add: deactivations_def)
next
  case (Cons f fs)
  show ?case
  proof (cases "Set_has wanted f")
    case True
    then show ?thesis using Cons by simp
  next
    case False
    from Cons.prems False obtain w1 where
      one: "safeDeactivate atom H f False w = (Inr (), w1)"
      and rest: "deactivateLoop atom H wanted fs w1 = (Inr (), w')"
      by (auto split: prod.splits sum.splits)
    obtain o1 o2 where blk:
      "w1 = w @ isolated_deactivation (packageNameFromPath (path (H f))) False o1 o2"
      using safeDeactivate_shape [OF one] by blast
    obtain outs where outs: "length outs = length (filter (\<lambda>f. \<not> Set_has wanted f) fs)"
      "w' = w1 @ deactivations H False (filter (\<lambda>f. \<not> Set_has wanted f) fs) outs"
      using Cons.IH [OF rest] by blast
    have "w' = w @ deactivations H False (filter (\<lambda>f. \<not> Set_has wanted f) (f # fs))
                  ((o1, o2) # outs)"
      using False outs(2) blk by (simp add: deactivations_Cons)
    moreover have "length ((o1, o2) # outs)
        = length (filter (\<lambda>f. \<not> Set_has wanted f) (f # fs))"
      using False outs(1) by simp
    ultimately show ?thesis by blast
  qed
qed

lemma deactivateLoop_returns:
  assumes "throws_readable atom"
  shows "\<exists>w'. deactivateLoop atom H wanted fs w = (Inr (), w')"
proof (induction fs arbitrary: w)
  case Nil
  then show ?case by simp
next
  case (Cons f fs)
  obtain w1 where "safeDeactivate atom H f False w = (Inr (), w1)"
    using safeDeactivate_returns [OF assms] by blast
  then show ?case using Cons.IH [of w1] Cons.IH [of w] by simp
qed


lemma activateLoop_shape:
  "activateLoop atom H active fs w = (Inr (), w1) \<Longrightarrow>
   \<exists>rs. length rs = length (filter (\<lambda>f. \<not> Set_has active f) fs) \<and>
     w1 = w @ activations H (filter (\<lambda>f. \<not> Set_has active f) fs) rs"
proof (induction fs arbitrary: w)
  case Nil
  then show ?case by (simp add: activations_def)
next
  case (Cons f fs)
  show ?case
  proof (cases "Set_has active f")
    case True
    then show ?thesis using Cons by simp
  next
    case False
    let ?c = "ActivatePackage (path (H f))"
    from Cons.prems False obtain r where r: "atom w ?c = Returns r"
      and rest: "activateLoop atom H active fs (w @ [Atom ?c (Returns r)]) = (Inr (), w1)"
      by (auto simp: atom_call_def Let_def split: outcome.splits)
    from Cons.IH [OF rest] obtain rs where
      rs: "length rs = length (filter (\<lambda>f. \<not> Set_has active f) fs)"
        "w1 = (w @ [Atom ?c (Returns r)]) @ activations H (filter (\<lambda>f. \<not> Set_has active f) fs) rs"
      by blast
    have "w1 = w @ activations H (filter (\<lambda>f. \<not> Set_has active f) (f # fs)) (r # rs)"
      using False rs(2) by (simp add: activations_def)
    moreover have "length (r # rs) = length (filter (\<lambda>f. \<not> Set_has active f) (f # fs))"
      using False rs(1) by simp
    ultimately show ?thesis by blast
  qed
qed

text \<open>If the host never throws on an activation request, the first loop returns.\<close>

lemma activateLoop_returns:
  "(\<And>w' p. \<exists>r. atom w' (ActivatePackage p) = Returns r) \<Longrightarrow>
   \<exists>w1. activateLoop atom H active fs w = (Inr (), w1)"
proof (induction fs arbitrary: w)
  case Nil
  then show ?case by simp
next
  case (Cons f fs)
  obtain r where "atom w (ActivatePackage (path (H f))) = Returns r"
    using Cons.prems by blast
  then show ?case using Cons.IH [OF Cons.prems] by (simp add: atom_call_def Let_def)
qed


lemma activateLoop_nothing:
  "set fs \<subseteq> set active \<Longrightarrow> activateLoop atom H active fs w = (Inr (), w)"
  by (induction fs) (auto simp: Set_has_def)

lemma deactivateLoop_nothing:
  "set fs \<subseteq> set wanted \<Longrightarrow> deactivateLoop atom H wanted fs w = (Inr (), w)"
  by (induction fs) (auto simp: Set_has_def)

text \<open>
  A reconciliation pass returns on every host that does not throw on an
  activation request and never throws \<^verbatim>\<open>null\<close> or \<^verbatim>\<open>undefined\<close>.
\<close>

lemma updateActiveFeatures_returns:
  assumes "\<And>w' p. \<exists>r. atom w' (ActivatePackage p) = Returns r"
    and "throws_readable atom"
  shows "\<exists>w'. updateActiveFeatures atom H config this w =
           (Inr (), this\<lparr>this_currentlyActiveFeatures := getEnabledFeatures H this config\<rparr>, w')"
proof -
  obtain w1 where "activateLoop atom H (this_currentlyActiveFeatures this)
      (getEnabledFeatures H this config) (w @ config_reads this) = (Inr (), w1)"
    using activateLoop_returns [of atom H, OF assms(1)] by blast
  moreover obtain w2 where "deactivateLoop atom H (getEnabledFeatures H this config)
      (this_currentlyActiveFeatures this) w1 = (Inr (), w2)"
    using deactivateLoop_returns [OF assms(2)] by blast
  ultimately show ?thesis by (simp add: updateActiveFeatures_def Let_def)
qed



subsection \<open>Observations of isolated blocks\<close>






section \<open>The lifecycle fields\<close>




lemma activate_holds_handle:
  "activate atom H config this w = (Inr (), this', w') \<Longrightarrow>
   \<exists>d. this_activationDisposable this' = Some d \<and> \<not> disposed d"
  by (auto simp: activate_def updateActiveFeatures_def atom_call_def Let_def
        new_UniversalDisposable_def split: if_splits outcome.splits option.splits
        prod.splits sum.splits)

lemma deactivate_releases_handle:
  "deactivate atom H this w = (Inr (), this', w') \<Longrightarrow>
   this_activationDisposable this' = None \<and> this_currentlyActiveFeatures this' = []"
  by (auto simp: deactivate_def Let_def split: option.splits if_splits prod.splits sum.splits)

section \<open>The small catalog, evaluated\<close>

lemma ex_names:
  "packageNameFromPath (path (ex_heap 10)) = ''F1''"
  "packageNameFromPath (path (ex_heap 11)) = ''F2''"
  "packageNameFromPath (path (ex_heap 12)) = ''F3''"
  by (simp_all add: packageNameFromPath_def basename_def ex_heap_def)

lemma ex_basenames:
  "basename (path (ex_heap 10)) = ''F1''"
  "basename (path (ex_heap 11)) = ''F2''"
  "basename (path (ex_heap 12)) = ''F3''"
  using ex_names by (simp_all add: packageNameFromPath_def)

lemma ex_names_of_paths:
  "packageNameFromPath ''/pkgs/F1'' = ''F1''"
  "packageNameFromPath ''/pkgs/F2'' = ''F2''"
  "packageNameFromPath ''/pkgs/F3/'' = ''F3''"
  by (simp_all add: packageNameFromPath_def basename_def)

lemma ex_paths:
  "path (ex_heap 10) = ''/pkgs/F1''"
  "path (ex_heap 11) = ''/pkgs/F2''"
  "path (ex_heap 12) = ''/pkgs/F3/''"
  by (simp_all add: ex_heap_def)

lemma ex_providers:
  "isRepositoryProvider ex_heap 10"
  "\<not> isRepositoryProvider ex_heap 11"
  "\<not> isRepositoryProvider ex_heap 12"
  by (simp_all add: isRepositoryProvider_def packageIsRepositoryProvider_def ex_heap_def)


lemma ex_namesToFeatures:
  "namesToFeatures ex_heap [10, 11, 12] = [''F1'' \<mapsto> 10, ''F2'' \<mapsto> 11, ''F3'' \<mapsto> 12]"
  by (simp add: namesToFeatures_def ex_basenames)



lemma cx_constructor_constructed:
  "new_FeatureLoader cx_constructor_heap cx_constructor_params = Inr cx_constructor_loader"
  by (simp add: new_FeatureLoader_def cx_constructor_params_def reorderFeatures_def
      groupFeatures_def Object_keys_def cx_constructor_loader_def ex_loader_def
      new_UniversalDisposable_def packageNameFromPath_def basename_def)

lemmas ex_eval =
  getEnabledFeatures_def Let_def ex_loader_def ex_index_def
  MultiMap_get_def setUnion_def featureIsEnabled_def idx_rule_def ex_names
  Object_prototype_members_def
  getFeatureDefaultValue_def startsWith_def new_Set_def Set_add_def Set_has_def
  ALWAYS_ENABLED_def DEFAULT_def NEVER_ENABLED_def REQUIRED_FEATURE_GROUP_def

lemma ex_resolved: "getEnabledFeatures ex_heap ex_loader ex_config = [10, 11, 12]"
  by (simp add: ex_eval ex_config_def)

lemma ex_resolved_without_F1:
  "getEnabledFeatures ex_heap ex_loader ex_config_without_F1 = [11, 12]"
  "getEnabledFeatures ex_heap ex_loader_F1_F2 ex_config_without_F1 = [11, 12]"
  by (simp_all add: ex_eval ex_config_without_F1_def ex_loader_F1_F2_def)


lemma ex_pkgName: "this_pkgName ex_loader = ''nuclide''"
  by (simp add: ex_loader_def)

lemmas ex_run =
  updateActiveFeatures_def Let_def atom_call_def safeDeactivate_def safeSerialize_def
  Set_has_def ex_paths ex_names_of_paths config_reads_def getUseKeyPath_def
  getEnabledFeatureGroupsKeyPath_def ex_pkgName


section \<open>The claims\<close>

text \<open>
  The resolved set for every catalog and every rule table over the
  documented rules: a feature whose name reads an inherited member of the
  table object is in it through the required group only.
\<close>

lemma getEnabledFeatures_exact:
  "set (getEnabledFeatures H this
          \<lparr>cfg_use = encode_rules ruleTable, cfg_enabledFeatureGroups = enabledGroups\<rparr>)
   = {f \<in> set (this_features this).
        (\<not> inherited_member ruleTable (basename (path (H f))) \<and>
         (spec_rule ruleTable (basename (path (H f))) = Always \<or>
          (spec_rule ruleTable (basename (path (H f))) = Default \<and>
           f \<in> spec_eligibleByGroup (this_features this) enabledGroups (groupIndexOf this)))) \<or>
        f \<in> groupIndexOf this ''nuclide-required''}"
  unfolding getEnabledFeatures_def Let_def groupIndexOf_def
  by (auto simp: set_new_Set featureIsEnabled_spec spec_eligibleByGroup_def set_setUnion
        REQUIRED_FEATURE_GROUP_def split: option.splits)




text \<open>
  In a loader built by the constructor every member of a group is a feature
  of the catalog, so the required group overrides the rules for all of its
  members.
\<close>

lemma constructed_required_enabled:
  assumes "new_FeatureLoader H params = Inr this"
    and "f \<in> set (MultiMap_get (this_featureGroups this) REQUIRED_FEATURE_GROUP)"
  shows "f \<in> set (getEnabledFeatures H this config)"
proof -
  from assms(1) obtain fs raw where
    "this_features this = fs" "this_featureGroups this = groupFeatures H fs raw"
    by (auto simp: new_FeatureLoader_def split: sum.splits)
  with assms(2) have "f \<in> set (this_features this)"
    using groupFeatures_members by metis
  with assms(2) show ?thesis
    by (simp add: getEnabledFeatures_def Let_def set_new_Set featureIsEnabled_def Set_has_def)
qed

text \<open>
  C2. A feature of the catalog that is a member of the required group
  \<open>nuclide-required\<close> is in the resolved set, whatever the rule table holds
  for it (an explicit \<open>never\<close> included) and whatever the selection is.
\<close>

theorem required_always_enabled:
  assumes "f \<in> set (this_features this)"
    and "f \<in> set (MultiMap_get (this_featureGroups this) REQUIRED_FEATURE_GROUP)"
  shows "f \<in> set (getEnabledFeatures H this \<lparr>cfg_use = rules, cfg_enabledFeatureGroups = sel\<rparr>)"
  using assms
  by (simp add: getEnabledFeatures_def Let_def set_new_Set featureIsEnabled_def Set_has_def)

theorem required_always_enabled_witness:
  "12 \<in> set (this_features ex_loader) \<and>
   12 \<in> set (MultiMap_get (this_featureGroups ex_loader) REQUIRED_FEATURE_GROUP) \<and>
   12 \<in> set (getEnabledFeatures ex_heap ex_loader
               \<lparr>cfg_use = Some [''F3'' \<mapsto> JStr ''never''], cfg_enabledFeatureGroups = Some []\<rparr>)"
proof -
  have a: "12 \<in> set (this_features ex_loader)"
    by (simp add: ex_loader_def)
  have b: "12 \<in> set (MultiMap_get (this_featureGroups ex_loader) REQUIRED_FEATURE_GROUP)"
    by (simp add: ex_loader_def ex_index_def MultiMap_get_def REQUIRED_FEATURE_GROUP_def)
  show ?thesis
    using a b required_always_enabled [OF a b] by blast
qed

text \<open>
  C3, as amended. In a reconciliation pass that returns, the host calls added
  to the world are: the two reads of the configuration; an activation request for every feature of the resolved
  set that is not in the active set, each of which returns, in the order of
  the resolved set; after all of those, for every feature of the active set
  that is not in the resolved set, in the order of the active set, an isolated
  deactivation (the host is asked for the loaded package, and a deactivation
  request, with serialization not suppressed, follows only if the host
  returns one). Afterwards the active set is the resolved set. By
  \<open>updateActiveFeatures_returns\<close> the pass returns on every host that does
  not throw on an activation request and never throws \<^verbatim>\<open>null\<close> or
  \<^verbatim>\<open>undefined\<close>.
\<close>

theorem updateActiveFeatures_reconciles:
  assumes "updateActiveFeatures atom H config this w = (Inr (), this', w')"
  shows "\<exists>rs outs.
           length rs = length (toActivate H this config) \<and>
           length outs = length (toDeactivate H this config) \<and>
           w' = w @ config_reads this
                  @ activations H (toActivate H this config) rs
                  @ deactivations H False (toDeactivate H this config) outs \<and>
           this' = this\<lparr>this_currentlyActiveFeatures := getEnabledFeatures H this config\<rparr>"
proof -
  let ?resolved = "getEnabledFeatures H this config"
  let ?active = "this_currentlyActiveFeatures this"
  from assms obtain w1 where
    act: "activateLoop atom H ?active ?resolved (w @ config_reads this) = (Inr (), w1)"
    and deact: "deactivateLoop atom H ?resolved ?active w1 = (Inr (), w')"
    and this': "this' = this\<lparr>this_currentlyActiveFeatures := ?resolved\<rparr>"
    by (auto simp: updateActiveFeatures_def Let_def split: prod.splits sum.splits)
  from activateLoop_shape [OF act] obtain rs where
    rs: "length rs = length (toActivate H this config)"
      "w1 = (w @ config_reads this) @ activations H (toActivate H this config) rs"
    unfolding toActivate_def by blast
  from deactivateLoop_shape [OF deact] obtain outs where
    outs: "length outs = length (toDeactivate H this config)"
      "w' = w1 @ deactivations H False (toDeactivate H this config) outs"
    unfolding toDeactivate_def by blast
  show ?thesis
    using rs outs this' by (intro exI [of _ rs] exI [of _ outs]) simp
qed

text \<open>
  The example of the claim: from the active set \<open>{F1, F2}\<close> and the resolved
  set \<open>{F2, F3}\<close>, on a host that reports \<open>F1\<close> loaded: activate \<open>F3\<close>, then
  deactivate \<open>F1\<close>.
\<close>

theorem updateActiveFeatures_reconciles_witness:
  "updateActiveFeatures ex_host ex_heap ex_config_without_F1 ex_loader_F1_F2 []
     = (Inr (), ex_loader_F1_F2\<lparr>this_currentlyActiveFeatures := [11, 12]\<rparr>,
        [ConfigGet ''nuclide.use'',
         ConfigGet ''nuclide.enabledFeatureGroups'',
         Atom (ActivatePackage ''/pkgs/F3/'') (Returns None),
         Atom (GetLoadedPackage ''F1'') (Returns (Some 7)),
         Atom (DeactivatePackage ''F1'' False) (Returns None)]) \<and>
   (\<exists>rs outs.
      [ConfigGet ''nuclide.use'',
       ConfigGet ''nuclide.enabledFeatureGroups'',
       Atom (ActivatePackage ''/pkgs/F3/'') (Returns None),
       Atom (GetLoadedPackage ''F1'') (Returns (Some 7)),
       Atom (DeactivatePackage ''F1'' False) (Returns None)]
      = config_reads ex_loader_F1_F2
        @ activations ex_heap [12] rs @ deactivations ex_heap False [10] outs)"
proof -
  have run: "updateActiveFeatures ex_host ex_heap ex_config_without_F1 ex_loader_F1_F2 []
     = (Inr (), ex_loader_F1_F2\<lparr>this_currentlyActiveFeatures := [11, 12]\<rparr>,
        [ConfigGet ''nuclide.use'',
         ConfigGet ''nuclide.enabledFeatureGroups'',
         Atom (ActivatePackage ''/pkgs/F3/'') (Returns None),
         Atom (GetLoadedPackage ''F1'') (Returns (Some 7)),
         Atom (DeactivatePackage ''F1'' False) (Returns None)])"
    unfolding updateActiveFeatures_def ex_resolved_without_F1
    by (simp add: ex_run ex_loader_F1_F2_def ex_host_def)
  have "toActivate ex_heap ex_loader_F1_F2 ex_config_without_F1 = [12]"
    "toDeactivate ex_heap ex_loader_F1_F2 ex_config_without_F1 = [10]"
    unfolding toActivate_def toDeactivate_def ex_resolved_without_F1
    by (simp_all add: ex_loader_F1_F2_def Set_has_def)
  with updateActiveFeatures_reconciles [OF run] run show ?thesis
    by auto
qed

text \<open>
  The claim as stated fails on a host that does not report \<open>F1\<close> loaded:
  \<open>F1\<close> is in the active set and not in the resolved set, the pass returns,
  and no deactivation request is issued.
\<close>

theorem updateActiveFeatures_guarded_deactivation_counterexample:
  "updateActiveFeatures cx_host_unloaded ex_heap ex_config_without_F1 ex_loader_F1_F2 []
     = (Inr (), ex_loader_F1_F2\<lparr>this_currentlyActiveFeatures := [11, 12]\<rparr>,
        [ConfigGet ''nuclide.use'',
         ConfigGet ''nuclide.enabledFeatureGroups'',
         Atom (ActivatePackage ''/pkgs/F3/'') (Returns None),
         Atom (GetLoadedPackage ''F1'') (Returns None)]) \<and>
   toDeactivate ex_heap ex_loader_F1_F2 ex_config_without_F1 = [10] \<and>
   observe deactivate_request_of
     [ConfigGet ''nuclide.use'',
      ConfigGet ''nuclide.enabledFeatureGroups'',
      Atom (ActivatePackage ''/pkgs/F3/'') (Returns None),
      Atom (GetLoadedPackage ''F1'') (Returns None)] = []"
proof -
  have "updateActiveFeatures cx_host_unloaded ex_heap ex_config_without_F1 ex_loader_F1_F2 []
     = (Inr (), ex_loader_F1_F2\<lparr>this_currentlyActiveFeatures := [11, 12]\<rparr>,
        [ConfigGet ''nuclide.use'',
         ConfigGet ''nuclide.enabledFeatureGroups'',
         Atom (ActivatePackage ''/pkgs/F3/'') (Returns None),
         Atom (GetLoadedPackage ''F1'') (Returns None)])"
    unfolding updateActiveFeatures_def ex_resolved_without_F1
    by (simp add: ex_run ex_loader_F1_F2_def cx_host_unloaded_def)
  moreover have "toDeactivate ex_heap ex_loader_F1_F2 ex_config_without_F1 = [10]"
    unfolding toDeactivate_def ex_resolved_without_F1
    by (simp add: ex_loader_F1_F2_def Set_has_def)
  ultimately show ?thesis by (simp add: observe_def)
qed




text \<open>
  C5, as amended. After a call of \<^verbatim>\<open>updateActiveFeatures\<close> that returns, the
  active set is the resolved set, and a further call under the same
  configuration, on any host, issues no activation and no deactivation
  request (all it adds to the world, which records every host call, are the
  two reads of the configuration) and leaves the loader as it is.
\<close>

theorem updateActiveFeatures_idempotent:
  assumes "updateActiveFeatures atom H config this w = (Inr (), this', w')"
  shows "updateActiveFeatures atom2 H config this' w'
           = (Inr (), this', w' @ config_reads this') \<and>
         this_currentlyActiveFeatures this' = getEnabledFeatures H this' config"
proof -
  let ?resolved = "getEnabledFeatures H this config"
  from assms have this': "this' = this\<lparr>this_currentlyActiveFeatures := ?resolved\<rparr>"
    by (auto simp: updateActiveFeatures_def Let_def split: prod.splits sum.splits)
  have same: "getEnabledFeatures H this' config = ?resolved"
    unfolding this' by (rule getEnabledFeatures_cong) simp_all
  have "activateLoop atom2 H ?resolved ?resolved v = (Inr (), v)" for v
    by (rule activateLoop_nothing) simp
  moreover have "deactivateLoop atom2 H ?resolved ?resolved v = (Inr (), v)" for v
    by (rule deactivateLoop_nothing) simp
  ultimately show ?thesis
    using this' same by (simp add: updateActiveFeatures_def Let_def)
qed

theorem updateActiveFeatures_idempotent_witness:
  "updateActiveFeatures ex_host ex_heap ex_config ex_loader []
     = (Inr (), ex_loader\<lparr>this_currentlyActiveFeatures := [10, 11, 12]\<rparr>,
        [ConfigGet ''nuclide.use'',
         ConfigGet ''nuclide.enabledFeatureGroups'',
         Atom (ActivatePackage ''/pkgs/F1'') (Returns None),
         Atom (ActivatePackage ''/pkgs/F2'') (Returns None),
         Atom (ActivatePackage ''/pkgs/F3/'') (Returns None)]) \<and>
   updateActiveFeatures cx_host_throwing ex_heap ex_config
       (ex_loader\<lparr>this_currentlyActiveFeatures := [10, 11, 12]\<rparr>)
       [ConfigGet ''nuclide.use'',
        ConfigGet ''nuclide.enabledFeatureGroups'',
        Atom (ActivatePackage ''/pkgs/F1'') (Returns None),
        Atom (ActivatePackage ''/pkgs/F2'') (Returns None),
        Atom (ActivatePackage ''/pkgs/F3/'') (Returns None)]
     = (Inr (), ex_loader\<lparr>this_currentlyActiveFeatures := [10, 11, 12]\<rparr>,
        [ConfigGet ''nuclide.use'',
         ConfigGet ''nuclide.enabledFeatureGroups'',
         Atom (ActivatePackage ''/pkgs/F1'') (Returns None),
         Atom (ActivatePackage ''/pkgs/F2'') (Returns None),
         Atom (ActivatePackage ''/pkgs/F3/'') (Returns None),
         ConfigGet ''nuclide.use'',
         ConfigGet ''nuclide.enabledFeatureGroups''])"
proof -
  have first: "updateActiveFeatures ex_host ex_heap ex_config ex_loader []
     = (Inr (), ex_loader\<lparr>this_currentlyActiveFeatures := [10, 11, 12]\<rparr>,
        [ConfigGet ''nuclide.use'',
         ConfigGet ''nuclide.enabledFeatureGroups'',
         Atom (ActivatePackage ''/pkgs/F1'') (Returns None),
         Atom (ActivatePackage ''/pkgs/F2'') (Returns None),
         Atom (ActivatePackage ''/pkgs/F3/'') (Returns None)])"
    unfolding updateActiveFeatures_def ex_resolved
    by (simp add: ex_run ex_loader_def ex_host_def)
  have reads: "config_reads (ex_loader\<lparr>this_currentlyActiveFeatures := [10, 11, 12]\<rparr>)
      = [ConfigGet ''nuclide.use'', ConfigGet ''nuclide.enabledFeatureGroups'']"
    by (simp add: ex_run ex_loader_def)
  from updateActiveFeatures_idempotent [OF first, of cx_host_throwing] first
  show ?thesis by (simp add: reads)
qed

text \<open>
  The claim as stated fails when an activation request throws: the active
  set stays empty although the resolved set is not, and a second call under
  the same configuration requests the activation of \<open>F1\<close> again.
\<close>

theorem updateActiveFeatures_not_converged_counterexample:
  "updateActiveFeatures cx_host_throwing ex_heap ex_config ex_loader []
     = (Inl (HostError (Message ''boom'')), ex_loader,
        [ConfigGet ''nuclide.use'',
         ConfigGet ''nuclide.enabledFeatureGroups'',
         Atom (ActivatePackage ''/pkgs/F1'') (Returns None),
         Atom (ActivatePackage ''/pkgs/F2'') (Throws (Message ''boom''))]) \<and>
   this_currentlyActiveFeatures ex_loader = [] \<and>
   getEnabledFeatures ex_heap ex_loader ex_config = [10, 11, 12] \<and>
   updateActiveFeatures cx_host_throwing ex_heap ex_config ex_loader
       [ConfigGet ''nuclide.use'',
        ConfigGet ''nuclide.enabledFeatureGroups'',
        Atom (ActivatePackage ''/pkgs/F1'') (Returns None),
        Atom (ActivatePackage ''/pkgs/F2'') (Throws (Message ''boom''))]
     = (Inl (HostError (Message ''boom'')), ex_loader,
        [ConfigGet ''nuclide.use'',
         ConfigGet ''nuclide.enabledFeatureGroups'',
         Atom (ActivatePackage ''/pkgs/F1'') (Returns None),
         Atom (ActivatePackage ''/pkgs/F2'') (Throws (Message ''boom'')),
         ConfigGet ''nuclide.use'',
         ConfigGet ''nuclide.enabledFeatureGroups'',
         Atom (ActivatePackage ''/pkgs/F1'') (Returns None),
         Atom (ActivatePackage ''/pkgs/F2'') (Throws (Message ''boom''))])"
proof -
  have "updateActiveFeatures cx_host_throwing ex_heap ex_config ex_loader w
     = (Inl (HostError (Message ''boom'')), ex_loader,
        w @ [ConfigGet ''nuclide.use'',
             ConfigGet ''nuclide.enabledFeatureGroups'',
             Atom (ActivatePackage ''/pkgs/F1'') (Returns None),
             Atom (ActivatePackage ''/pkgs/F2'') (Throws (Message ''boom''))])" for w
    unfolding updateActiveFeatures_def ex_resolved
    by (simp add: ex_run ex_loader_def cx_host_throwing_def)
  from this [of "[]"]
    this [of "[ConfigGet ''nuclide.use'',
               ConfigGet ''nuclide.enabledFeatureGroups'',
               Atom (ActivatePackage ''/pkgs/F1'') (Returns None),
               Atom (ActivatePackage ''/pkgs/F2'') (Throws (Message ''boom''))]"]
  show ?thesis
    using ex_resolved by (simp add: ex_loader_def)
qed

text \<open>
  C6, as amended. For every input list \<^verbatim>\<open>reorderFeatures\<close> returns, without
  touching its argument, a permutation of the input in which every feature
  that provides \<open>atom.repository-provider\<close> (by the test of
  \<^verbatim>\<open>packageIsRepositoryProvider\<close>) comes before every feature that does not;
  and when no feature object occurs twice in the input, the output is the
  stable partition of the input, so that the input order is kept within both
  parts.
\<close>

theorem reorderFeatures_partition:
  "\<exists>ys. reorderFeatures H features = Inr ys \<and>
        mset ys = mset features \<and>
        stable_partition (isRepositoryProvider H) ys = ys \<and>
        (distinct features \<longrightarrow> ys = stable_partition (isRepositoryProvider H) features)"
  using reorderFeatures_total [of H features] reorderFeatures_distinct [of features H]
  by auto

theorem reorderFeatures_partition_witness:
  "distinct [11, 12, 10 :: nat] \<and> reorderFeatures ex_heap [11, 12, 10] = Inr [10, 11, 12]"
  using reorderFeatures_partition [of ex_heap "[11, 12, 10]"] ex_providers
  by (auto simp: stable_partition_def)

text \<open>
  The claim as stated fails on a list that holds the same feature object
  twice: \<open>F2, F3, F2\<close>, none of them a provider, comes back as \<open>F3, F2, F2\<close>,
  while its stable partition is the list itself.
\<close>

theorem reorderFeatures_repeated_counterexample:
  "reorderFeatures ex_heap [11, 12, 11] = Inr [12, 11, 11] \<and>
   stable_partition (isRepositoryProvider ex_heap) [11, 12, 11] = [11, 12, 11]"
proof -
  have order: "originalOrder [11, 12, 11] = [12 \<mapsto> 1, 11 \<mapsto> 2]"
    by (auto simp: originalOrder_def new_Map_def fun_eq_iff)
  have "reorderFeatures ex_heap [11, 12, 11] = Inr [12, 11, 11]"
    unfolding reorderFeatures_def Let_def order
    using ex_providers
    by (simp add: compareFeatures_def nullthrows_def isRepositoryProvider_def)
  then show ?thesis
    using ex_providers by (simp add: stable_partition_def)
qed







text \<open>
  C9. For every group definition, the members of the group in the index are
  the features of the catalog that one of the listed names resolves to: a
  name that resolves to no feature is dropped. If none of the names is the
  name of a feature, the group is empty. Building the index is part of the
  constructor, which returns a loader for every group definition; the
  resolver has no failing branch.
\<close>

theorem groupFeatures_lenient:
  assumes "map_of raw g = Some (IsArray names)"
  shows "set (MultiMap_get (groupFeatures H features raw) g)
           = {f \<in> set features. \<exists>n \<in> set names. namesToFeatures H features n = Some f} \<and>
         ((\<forall>n \<in> set names. \<forall>f \<in> set features. basename (path (H f)) \<noteq> n) \<longrightarrow>
            MultiMap_get (groupFeatures H features raw) g = []) \<and>
         (\<exists>this. new_FeatureLoader H
                   \<lparr>param_path = p, param_features = features, param_featureGroups = Some raw\<rparr>
                 = Inr this)"
proof -
  let ?m = "namesToFeatures H features"
  have get: "MultiMap_get (groupFeatures H features raw) g = new_Set (featuresForKey ?m names)"
    using assms by (simp add: MultiMap_get_def groupFeatures_lookup)
  have members: "set (new_Set (featuresForKey ?m names))
      = {f \<in> set features. \<exists>n \<in> set names. ?m n = Some f}"
    by (auto simp: set_new_Set set_featuresForKey dest: namesToFeatures_Some)
  have "featuresForKey ?m names = []"
    if "\<forall>n \<in> set names. \<forall>f \<in> set features. basename (path (H f)) \<noteq> n"
    using that featuresForKey_empty [of names ?m] by (simp add: namesToFeatures_None)
  then have "(\<forall>n \<in> set names. \<forall>f \<in> set features. basename (path (H f)) \<noteq> n) \<longrightarrow>
      new_Set (featuresForKey ?m names) = []"
    by (simp add: new_Set_def)
  with get members new_FeatureLoader_total show ?thesis by simp
qed

theorem groupFeatures_lenient_witness:
  "map_of ex_groups ''ghost'' = Some (IsArray [''nope'', ''missing'']) \<and>
   MultiMap_get (groupFeatures ex_heap [10, 11, 12] ex_groups) ''ghost'' = [] \<and>
   map_of ex_groups ''g1'' = Some (IsArray [''F1'', ''F9'']) \<and>
   set (MultiMap_get (groupFeatures ex_heap [10, 11, 12] ex_groups) ''g1'') = {10}"
proof -
  have a: "map_of ex_groups ''ghost'' = Some (IsArray [''nope'', ''missing''])"
    and b: "map_of ex_groups ''g1'' = Some (IsArray [''F1'', ''F9''])"
    by (simp_all add: ex_groups_def)
  have "MultiMap_get (groupFeatures ex_heap [10, 11, 12] ex_groups) ''ghost'' = []"
    using groupFeatures_lenient [OF a, of ex_heap "[10, 11, 12]"] ex_basenames by simp
  moreover have "set (MultiMap_get (groupFeatures ex_heap [10, 11, 12] ex_groups) ''g1'') = {10}"
    using groupFeatures_lenient [OF b, of ex_heap "[10, 11, 12]"]
    by (auto simp: ex_namesToFeatures split: if_splits)
  ultimately show ?thesis using a b by simp
qed

text \<open>
  C10. A feature whose entry in the rule table is the boolean \<^verbatim>\<open>true\<close> is in
  the resolved set whatever the selection of enabled groups is, and the
  resolved set is the one obtained with the rule \<open>always\<close> in its place.
\<close>

theorem rule_true_as_always:
  assumes "rules n = Some (JBool True)"
  shows "getEnabledFeatures H this \<lparr>cfg_use = Some rules, cfg_enabledFeatureGroups = sel\<rparr>
         = getEnabledFeatures H this
             \<lparr>cfg_use = Some (rules(n \<mapsto> JStr ALWAYS_ENABLED)), cfg_enabledFeatureGroups = sel\<rparr> \<and>
         (\<forall>f \<in> set (this_features this).
            packageNameFromPath (path (H f)) = n \<longrightarrow>
            f \<in> set (getEnabledFeatures H this
                        \<lparr>cfg_use = Some rules, cfg_enabledFeatureGroups = sel\<rparr>))"
proof -
  have "featureIsEnabled H (Some rules) elig req
       = featureIsEnabled H (Some (rules(n \<mapsto> JStr ALWAYS_ENABLED))) elig req" for elig req
    using featureIsEnabled_true_as_always [of rules n H elig req] assms
    by (simp add: fun_eq_iff)
  moreover have "featureIsEnabled H (Some rules) elig req f"
    if "packageNameFromPath (path (H f)) = n" for elig req f
    using assms that by (simp add: featureIsEnabled_def Let_def idx_rule_def)
  ultimately show ?thesis
    by (simp add: getEnabledFeatures_def Let_def set_new_Set)
qed

theorem rule_true_as_always_witness:
  "[''F2'' \<mapsto> JBool True] ''F2'' = Some (JBool True) \<and>
   getEnabledFeatures ex_heap ex_loader
     \<lparr>cfg_use = Some [''F2'' \<mapsto> JBool True], cfg_enabledFeatureGroups = Some []\<rparr> = [11, 12] \<and>
   getEnabledFeatures ex_heap ex_loader
     \<lparr>cfg_use = Some [''F2'' \<mapsto> JStr ''always''], cfg_enabledFeatureGroups = Some []\<rparr> = [11, 12]"
proof -
  have a: "[''F2'' \<mapsto> JBool True] ''F2'' = Some (JBool True)" by simp
  have "getEnabledFeatures ex_heap ex_loader
     \<lparr>cfg_use = Some [''F2'' \<mapsto> JBool True], cfg_enabledFeatureGroups = Some []\<rparr> = [11, 12]"
    by (simp add: ex_eval)
  with rule_true_as_always [of "[''F2'' \<mapsto> JBool True]" "''F2''" ex_heap ex_loader "Some []"] a
  show ?thesis
    by (simp add: ALWAYS_ENABLED_def)
qed

end
